theory Spec2Isabelle
  imports Main "HOL-Library.AList"
begin

section \<open>JavaScript values\<close>

text \<open>
  The values that flow through \<open>wire()\<close>: properties, descriptor arguments, resolved data
  and rejection values. The numbers are the integers (zero stands for both zeros, which
  \<open>===\<close> does not tell apart and \<open>JSON.stringify\<close> writes alike), \<open>NaN\<close> and the two
  infinities (\<open>JInfinity True\<close> is the positive one); numbers with a fraction are left
  out, and what is said of the text of a number is said of the integers that a Number
  holds exactly (\<open>safe_integer\<close>), which are written with their decimal digits; a string is a list of code units below 256; \<open>JFun f\<close> is a function
  value, named by a number. An array or an object is given with the name of the object it
  is and with its contents, an object's contents being the list of its own enumerable
  members in enumeration order (member names distinct): two values with the same contents
  and different names are two objects. The name is \<open>Given n\<close> for an object handed in
  from outside (by the host or by the model) and \<open>Made n\<close> for the \<open>n\<close>-th object that
  the wrapper instance creates. Objects have no \<open>then\<close> member: a thenable is never a
  \<open>jsval\<close>, it is the \<open>Thenable\<close> result of a call.
\<close>

datatype ref = Given nat | Made nat

datatype jsval =
    JUndefined
  | JNull
  | JBool bool
  | JNum int
  | JNaN
  | JInfinity bool
  | JStr string
  | JFun nat
  | JArr ref "jsval list"
  | JObj ref "(string \<times> jsval) list"

type_synonym obj = "(string \<times> jsval) list"

text \<open>What a descriptor evaluates to: a plain value, or a thenable (named by a number).\<close>

datatype result = Plain jsval | Thenable nat

text \<open>ToBoolean.\<close>

fun truthy :: "jsval \<Rightarrow> bool" where
  "truthy JUndefined = False"
| "truthy JNull = False"
| "truthy (JBool b) = b"
| "truthy (JNum n) = (n \<noteq> 0)"
| "truthy JNaN = False"
| "truthy (JInfinity b) = True"
| "truthy (JStr s) = (s \<noteq> [])"
| "truthy (JFun f) = True"
| "truthy (JArr r xs) = True"
| "truthy (JObj r ms) = True"

text \<open>
  \<open>a === b\<close>: \<open>NaN\<close> equals nothing, arrays and objects are equal when they are the
  same object, and every other value equals the values like it.
\<close>

definition strict_eq :: "jsval \<Rightarrow> jsval \<Rightarrow> bool" where
  "strict_eq a b =
     (case (a, b) of
        (JNaN, _) \<Rightarrow> False
      | (JArr r xs, JArr r' ys) \<Rightarrow> r = r'
      | (JObj r ms, JObj r' ms') \<Rightarrow> r = r'
      | _ \<Rightarrow> a = b)"

text \<open>\<open>o[k]\<close>, \<open>k in o\<close>, \<open>o[k] = v\<close>, \<open>delete o[k]\<close> and \<open>{...a, ...b}\<close> on objects.\<close>

definition getp :: "obj \<Rightarrow> string \<Rightarrow> jsval" where
  "getp ob k = (case map_of ob k of None \<Rightarrow> JUndefined | Some v \<Rightarrow> v)"

definition has_key :: "obj \<Rightarrow> string \<Rightarrow> bool" where
  "has_key ob k = (map_of ob k \<noteq> None)"

definition setp :: "string \<Rightarrow> jsval \<Rightarrow> obj \<Rightarrow> obj" where
  "setp k v ob = AList.update k v ob"

definition delp :: "string \<Rightarrow> obj \<Rightarrow> obj" where
  "delp k ob = AList.delete k ob"

definition assign :: "obj \<Rightarrow> obj \<Rightarrow> obj" where
  "assign a b = foldl (\<lambda>acc (k, v). setp k v acc) a b"

text \<open>\<open>v[k]\<close> and \<open>{...v}\<close> on any value: only an object has members of its own.\<close>

definition member :: "jsval \<Rightarrow> string \<Rightarrow> jsval" where
  "member v k = (case v of JObj r ob \<Rightarrow> getp ob k | _ \<Rightarrow> JUndefined)"

definition own_props :: "jsval \<Rightarrow> obj" where
  "own_props v = (case v of JObj r ob \<Rightarrow> ob | _ \<Rightarrow> [])"

text \<open>
  The names that every object inherits from \<open>Object.prototype\<close>: \<open>key in o\<close> holds
  for them too, and \<open>o[key]\<close> is a built-in, no \<open>jsval\<close>, when \<open>o\<close> has no member of
  its own under the name.
\<close>

definition object_prototype :: "string list" where
  "object_prototype =
     [''constructor'', ''hasOwnProperty'', ''isPrototypeOf'', ''propertyIsEnumerable'',
      ''toLocaleString'', ''toString'', ''valueOf'', ''__proto__'',
      ''__defineGetter__'', ''__defineSetter__'', ''__lookupGetter__'', ''__lookupSetter__'']"

definition inherited :: "string \<Rightarrow> bool" where
  "inherited k = (k \<in> set object_prototype)"

section \<open>util.js\<close>

text \<open>\<open>join(arr)\<close>: \<open>arr ? arr.join('\n') : ''\<close>.\<close>

fun join_lines :: "string list \<Rightarrow> string" where
  "join_lines [] = []"
| "join_lines [x] = x"
| "join_lines (x # y # ys) = x @ CHR 0x0A # join_lines (y # ys)"

definition join :: "string list option \<Rightarrow> string" where
  "join arr = (case arr of None \<Rightarrow> [] | Some ks \<Rightarrow> join_lines ks)"

text \<open>\<open>get(obj, key)\<close>: \<open>key ? obj[key] : obj\<close>; the key is a string or absent.\<close>

definition get :: "jsval \<Rightarrow> string option \<Rightarrow> jsval" where
  "get ob key = (case key of None \<Rightarrow> ob
                 | Some k \<Rightarrow> if k \<noteq> [] then member ob k else ob)"

text \<open>
  \<open>shallowEqual(a, b)\<close>, lines 19 to 23. The first loop runs over the keys of \<open>a\<close>
  (its own ones: nothing inherited is enumerable) and fails on \<open>a[key] !== b[key]\<close>,
  where \<open>b[key]\<close> is the member of \<open>b\<close>, or a built-in when \<open>b\<close> only inherits the
  name, or \<open>undefined\<close>. The second runs over the keys of \<open>b\<close> and fails on
  \<open>!(key in a)\<close>.
\<close>

definition differs :: "obj \<Rightarrow> obj \<Rightarrow> string \<Rightarrow> bool" where
  "differs a b key =
     (case map_of b key of
        Some v \<Rightarrow> \<not> strict_eq (getp a key) v
      | None \<Rightarrow> inherited key \<or> \<not> strict_eq (getp a key) JUndefined)"

definition key_in :: "string \<Rightarrow> obj \<Rightarrow> bool" where
  "key_in key a = (has_key a key \<or> inherited key)"

definition shallowEqual :: "obj \<Rightarrow> obj \<Rightarrow> bool" where
  "shallowEqual a b =
     (list_all (\<lambda>key. \<not> differs a b key) (map fst a) \<and>
      list_all (\<lambda>key. key_in key a) (map fst b))"

text \<open>
  \<open>removeKeyFromObject(key, obj)\<close>: a clone without the key when the object has it
  (a new object, which gets the name \<open>new\<close>), the object itself otherwise. The result is
  returned as it is, also when it is empty.
\<close>

definition removeKeyFromObject :: "ref \<Rightarrow> string \<Rightarrow> jsval \<Rightarrow> jsval" where
  "removeKeyFromObject new key ob =
     (case ob of
        JObj r ms \<Rightarrow> if has_key ms key then JObj new (delp key ms) else ob
      | other \<Rightarrow> other)"

section \<open>JSON.stringify and the cache key\<close>

text \<open>
  \<open>JSON.stringify\<close> works in two steps. A value is first read as a JSON value:
  \<open>undefined\<close> and functions have none; inside an array they stand as \<open>null\<close>, and an
  object member holding one is left out; \<open>NaN\<close> and the infinities are read as
  \<open>null\<close>; which object an array or an object is plays no part. The JSON value is then
  written as text.
\<close>

datatype json =
    Null
  | Bool bool
  | Num int
  | Str string
  | Arr "json list"
  | Obj "(string \<times> json) list"

fun to_json :: "jsval \<Rightarrow> json option" where
  "to_json JUndefined = None"
| "to_json (JFun f) = None"
| "to_json JNull = Some Null"
| "to_json (JBool b) = Some (Bool b)"
| "to_json (JNum n) = Some (Num n)"
| "to_json JNaN = Some Null"
| "to_json (JInfinity b) = Some Null"
| "to_json (JStr s) = Some (Str s)"
| "to_json (JArr r xs) =
     Some (Arr (map (\<lambda>x. case to_json x of None \<Rightarrow> Null | Some j \<Rightarrow> j) xs))"
| "to_json (JObj r ms) =
     Some (Obj (concat (map (\<lambda>(k, v). case to_json v of None \<Rightarrow> [] | Some j \<Rightarrow> [(k, j)]) ms)))"

text \<open>Decimal digits of a natural number, and of an integer.\<close>

definition digit :: "nat \<Rightarrow> char" where
  "digit d = ''0123456789abcdef'' ! d"

function digits :: "nat \<Rightarrow> string" where
  "digits n = (if n < 10 then [digit n] else digits (n div 10) @ [digit (n mod 10)])"
  by pat_completeness auto
termination
  by (relation "measure id") auto

declare digits.simps [simp del]

definition show_int :: "int \<Rightarrow> string" where
  "show_int i = (if i < 0 then CHR ''-'' # digits (nat (- i)) else digits (nat i))"

text \<open>
  QuoteJSONString: the quote and the backslash are escaped, the control characters are
  written with their short escape or as \<open>\u00XX\<close>, and every other code unit stands
  for itself.
\<close>

definition esc_char :: "char \<Rightarrow> string" where
  "esc_char c =
     (let n = (of_char c :: nat) in
      if n = 0x22 then [CHR 0x5C, CHR 0x22]
      else if n = 0x5C then [CHR 0x5C, CHR 0x5C]
      else if n = 0x08 then [CHR 0x5C, CHR ''b'']
      else if n = 0x09 then [CHR 0x5C, CHR ''t'']
      else if n = 0x0A then [CHR 0x5C, CHR ''n'']
      else if n = 0x0C then [CHR 0x5C, CHR ''f'']
      else if n = 0x0D then [CHR 0x5C, CHR ''r'']
      else if n < 0x20 then [CHR 0x5C, CHR ''u'', CHR ''0'', CHR ''0'', digit (n div 16), digit (n mod 16)]
      else [c])"

definition quote :: "string \<Rightarrow> string" where
  "quote s = CHR 0x22 # concat (map esc_char s) @ [CHR 0x22]"

fun render :: "json \<Rightarrow> string"
  and render_elems :: "json list \<Rightarrow> string"
  and render_members :: "(string \<times> json) list \<Rightarrow> string" where
  "render Null = ''null''"
| "render (Bool b) = (if b then ''true'' else ''false'')"
| "render (Num n) = show_int n"
| "render (Str s) = quote s"
| "render (Arr xs) = CHR ''['' # render_elems xs"
| "render (Obj ms) = CHR ''{'' # render_members ms"
| "render_elems [] = '']''"
| "render_elems [x] = render x @ '']''"
| "render_elems (x # y # ys) = render x @ CHR '','' # render_elems (y # ys)"
| "render_members [] = ''}''"
| "render_members [(k, v)] = quote k @ CHR '':'' # render v @ ''}''"
| "render_members ((k, v) # m # ms) = quote k @ CHR '':'' # render v @ CHR '','' # render_members (m # ms)"

definition JSON_stringify :: "jsval \<Rightarrow> string option" where
  "JSON_stringify v = map_option render (to_json v)"

text \<open>An array element as JSON: \<open>null\<close> where the value has no JSON form.\<close>

definition json_elem :: "jsval \<Rightarrow> json" where
  "json_elem x = (case to_json x of None \<Rightarrow> Null | Some j \<Rightarrow> j)"

text \<open>The context namespace as a value: a string, or \<open>undefined\<close> when it is left out.\<close>

definition ns_val :: "string option \<Rightarrow> jsval" where
  "ns_val ns = (case ns of None \<Rightarrow> JUndefined | Some s \<Rightarrow> JStr s)"

text \<open>\<open>key = JSON.stringify([contextNamespace, path, ...args])\<close> (index.js, line 81).\<close>

definition cache_key :: "string option \<Rightarrow> jsval \<Rightarrow> jsval list \<Rightarrow> string" where
  "cache_key ns path args = render (Arr (map json_elem (ns_val ns # path # args)))"






section \<open>The wrapper component\<close>

text \<open>
  \<open>wire(contextNamespace, mapToProps, mapModelToProps)\<close>: the namespace and the
  mapping specification, which is a static object or a function of the properties.
\<close>

datatype mapspec = Static obj | Dynamic "obj \<Rightarrow> obj"

record config =
  contextNamespace :: "string option"
  mapToProps :: mapspec
  mapModelToProps :: "jsval \<Rightarrow> obj \<Rightarrow> obj"

text \<open>
  What the component finds around it during one lifecycle call: the context, \<open>dlv\<close>
  (the path lookup of the \<open>dlv\<close> package), and what calling a function value returns:
  \<open>call_fn f n args\<close> is the result of the call of \<open>f\<close> on \<open>args\<close> made after
  \<open>n\<close> earlier calls.
\<close>

record env =
  ctx :: jsval
  dlv :: "jsval \<Rightarrow> string \<Rightarrow> jsval"
  call_fn :: "nat \<Rightarrow> nat \<Rightarrow> jsval list \<Rightarrow> result"

text \<open>
  The fields of a \<open>WireDataWrapper\<close> instance, and \<open>made\<close>, the number of names it has
  taken for the objects it creates: the next one is \<open>Made (made w)\<close>.
\<close>

record wrapper =
  props :: obj
  state :: obj
  currentKeys :: "(string \<times> string) list"
  tracking :: "(string \<times> nat) list"
  counter :: nat
  keys :: "string list option"
  mapping :: obj
  made :: nat

text \<open>
  What the instances of one \<open>wire(...)\<close> share: the \<open>CACHE\<close> of the closure and the
  \<open>__wiretieResolved\<close> field of each thenable. Two logs record what happens outside:
  \<open>calls\<close>, how the value of each property was obtained, and \<open>thens\<close>, the handlers
  attached to thenables as (thenable, property, key, id).
\<close>

datatype call = Method string "jsval list" | Function nat | Literal jsval

record world =
  CACHE :: obj
  resolved :: "(nat \<times> jsval) list"
  calls :: "(string \<times> call) list"
  thens :: "(nat \<times> string \<times> string \<times> nat) list"

datatype error = NotFound "string option" string | TypeError

text \<open>\<open>setState(partial)\<close> of Preact 8: the partial state is copied over the state at once.\<close>

definition setState :: "obj \<Rightarrow> wrapper \<Rightarrow> wrapper" where
  "setState partial w = w\<lparr>state := assign (state w) partial\<rparr>"

text \<open>\<open>p.__wiretieResolved\<close>.\<close>

definition wiretieResolved :: "world \<Rightarrow> nat \<Rightarrow> jsval" where
  "wiretieResolved g p = (case map_of (resolved g) p of None \<Rightarrow> JUndefined | Some v \<Rightarrow> v)"

text \<open>
  Lines 71 to 79: a descriptor is \<open>[path, ...args]\<close> or a lone path; under a static
  mapping an argument that is a string and a key of the properties is replaced by the
  property's value.
\<close>

definition split_descriptor :: "jsval \<Rightarrow> jsval \<times> jsval list" where
  "split_descriptor d =
     (case d of
        JArr r [] \<Rightarrow> (JUndefined, [])
      | JArr r (x # xs) \<Rightarrow> (x, xs)
      | other \<Rightarrow> (other, []))"

definition subst_arg :: "obj \<Rightarrow> jsval \<Rightarrow> jsval" where
  "subst_arg ps p = (case p of JStr s \<Rightarrow> if has_key ps s then getp ps s else p | _ \<Rightarrow> p)"

definition descriptor :: "bool \<Rightarrow> obj \<Rightarrow> jsval \<Rightarrow> jsval \<times> jsval list" where
  "descriptor isFunction ps d =
     (let (path, args) = split_descriptor d
      in (path, if \<not> isFunction then map (subst_arg ps) args else args))"

text \<open>
  Lines 91 to 102: the value of the descriptor. A function path is called without
  arguments, a path that is no string is the value itself, and a string path is looked up
  in the model and called on the arguments; the lookup that finds nothing throws.
\<close>

definition call_path ::
  "config \<Rightarrow> env \<Rightarrow> string \<Rightarrow> jsval \<Rightarrow> jsval list \<Rightarrow> world \<Rightarrow> error + result \<times> world" where
  "call_path cfg e prop path args g =
     (let n = length (calls g) in
      case path of
        JFun f \<Rightarrow> Inr (call_fn e f n [], g\<lparr>calls := calls g @ [(prop, Function f)]\<rparr>)
      | JStr s \<Rightarrow>
          (let fn = dlv e (get (ctx e) (contextNamespace cfg)) s in
           if \<not> truthy fn then Inl (NotFound (contextNamespace cfg) s)
           else case fn of
                  JFun f \<Rightarrow> Inr (call_fn e f n args, g\<lparr>calls := calls g @ [(prop, Method s args)]\<rparr>)
                | _ \<Rightarrow> Inl TypeError)
      | other \<Rightarrow> Inr (Plain other, g\<lparr>calls := calls g @ [(prop, Literal other)]\<rparr>))"

text \<open>Lines 104 to 106: a thenable seen to resolve before stands for its value.\<close>

definition unwrap_resolved :: "world \<Rightarrow> result \<Rightarrow> result" where
  "unwrap_resolved g p =
     (case p of
        Thenable i \<Rightarrow> if truthy (wiretieResolved g i) then Plain (wiretieResolved g i) else p
      | Plain v \<Rightarrow> p)"

text \<open>
  Lines 109 to 161, without the handlers: the property is marked pending, an old
  rejection of it is removed, the invocation gets the next id, the handlers are attached,
  and a cached value is shown meanwhile. The pending object and the clone of the rejected
  one are new objects: two names are taken for them, used or not.
\<close>

definition start_async :: "string \<Rightarrow> string \<Rightarrow> nat \<Rightarrow> wrapper \<times> world \<Rightarrow> wrapper \<times> world" where
  "start_async prop key p s =
     (let (w, g) = s;
          newState = [];
          pending = getp (state w) ''pending'';
          rejected = getp (state w) ''rejected'';
          newState =
            (if \<not> truthy pending
               then setp ''pending'' (JObj (Made (made w)) [(prop, JBool True)]) newState
             else if \<not> truthy (member pending prop)
               then setp ''pending''
                      (JObj (Made (made w)) (setp prop (JBool True) (own_props pending))) newState
             else newState);
          newState =
            (if truthy rejected \<and> truthy (member rejected prop)
               then setp ''rejected'' (removeKeyFromObject (Made (made w + 1)) prop rejected) newState
             else newState);
          w = w\<lparr>made := made w + 2\<rparr>;
          ident = counter w + 1;
          w = w\<lparr>counter := ident, tracking := AList.update prop ident (tracking w)\<rparr>;
          g = g\<lparr>thens := thens g @ [(p, prop, key, ident)]\<rparr>;
          newState =
            (if getp (CACHE g) key \<noteq> JUndefined then setp prop (getp (CACHE g) key) newState
             else newState)
      in (setState newState w, g))"

text \<open>Lines 85 to 166: one entry of the mapping whose key calls for an invocation.\<close>

definition issue ::
  "config \<Rightarrow> env \<Rightarrow> string \<Rightarrow> jsval \<Rightarrow> jsval list \<Rightarrow> string \<Rightarrow> wrapper \<times> world
     \<Rightarrow> error + wrapper \<times> world" where
  "issue cfg e prop path args key s =
     (let (w, g) = s;
          w = w\<lparr>currentKeys := AList.update prop key (currentKeys w)\<rparr>
      in case call_path cfg e prop path args g of
           Inl err \<Rightarrow> Inl err
         | Inr (p, g) \<Rightarrow>
             (case unwrap_resolved g p of
                Thenable i \<Rightarrow> Inr (start_async prop key i (w, g))
              | Plain v \<Rightarrow> Inr (setState [(prop, v)] w, g)))"

text \<open>The loop of \<open>invoke\<close> over the entries of the mapping, lines 70 to 167.\<close>

fun invoke_loop ::
  "config \<Rightarrow> env \<Rightarrow> bool \<Rightarrow> obj \<Rightarrow> bool \<Rightarrow> bool \<Rightarrow> obj \<Rightarrow> string list
     \<Rightarrow> wrapper \<times> world \<Rightarrow> error + string list \<times> wrapper \<times> world" where
  "invoke_loop cfg e isFunction ps keysOnly refresh [] ks s = Inr (ks, s)"
| "invoke_loop cfg e isFunction ps keysOnly refresh ((prop, d) # rest) ks s =
     (let (path, args) = descriptor isFunction ps d;
          key = cache_key (contextNamespace cfg) path args;
          ks = ks @ [key]
      in if keysOnly then invoke_loop cfg e isFunction ps keysOnly refresh rest ks s
         else if \<not> refresh \<and> map_of (currentKeys (fst s)) prop = Some key
           then invoke_loop cfg e isFunction ps keysOnly refresh rest ks s
         else case issue cfg e prop path args key s of
                Inl err \<Rightarrow> Inl err
              | Inr s' \<Rightarrow> invoke_loop cfg e isFunction ps keysOnly refresh rest ks s')"

text \<open>\<open>invoke(props, keysOnly, refresh)\<close>: returns the keys and stores them in \<open>this.keys\<close>.\<close>

definition mapping_of :: "config \<Rightarrow> obj \<Rightarrow> obj" where
  "mapping_of cfg ps = (case mapToProps cfg of Static m \<Rightarrow> m | Dynamic f \<Rightarrow> f ps)"

definition is_function :: "config \<Rightarrow> bool" where
  "is_function cfg = (case mapToProps cfg of Static m \<Rightarrow> False | Dynamic f \<Rightarrow> True)"

definition invoke ::
  "config \<Rightarrow> env \<Rightarrow> obj \<Rightarrow> bool \<Rightarrow> bool \<Rightarrow> wrapper \<times> world
     \<Rightarrow> error + string list \<times> wrapper \<times> world" where
  "invoke cfg e ps keysOnly refresh s =
     (case invoke_loop cfg e (is_function cfg) ps keysOnly refresh (mapping_of cfg ps) [] s of
        Inl err \<Rightarrow> Inl err
      | Inr (ks, w, g) \<Rightarrow> Inr (ks, w\<lparr>keys := Some ks\<rparr>, g))"

section \<open>The settlement handlers\<close>

text \<open>
  The three handlers attached at lines 131 to 155 by the invocation with identifier
  \<open>ident\<close> (the captured \<open>id\<close>) for property \<open>prop\<close> under key \<open>key\<close> on the thenable \<open>p\<close>.
  The first two return the staged partial state (\<open>None\<close> for \<open>undefined\<close>).
\<close>

text \<open>Lines 131 to 137, on success.\<close>

definition on_resolve :: "nat \<Rightarrow> string \<Rightarrow> string \<Rightarrow> jsval \<Rightarrow> world \<Rightarrow> obj option \<times> world" where
  "on_resolve p prop key data g =
     (let g = g\<lparr>resolved := AList.update p data (resolved g)\<rparr>;
          newState = [];
          g = g\<lparr>CACHE := setp key data (CACHE g)\<rparr>;
          newState = setp prop data newState
      in (Some newState, g))"

text \<open>
  Lines 138 to 146, on failure. The rejected object that is staged is a new object, a
  copy of the one in the state or an empty one, and takes a name.
\<close>

definition on_reject ::
  "string \<Rightarrow> string \<Rightarrow> nat \<Rightarrow> jsval \<Rightarrow> wrapper \<Rightarrow> world \<Rightarrow> obj option \<times> wrapper" where
  "on_reject prop key ident err w g =
     (if map_of (tracking w) prop \<noteq> Some ident then (None, w)
      else
        let rejected =
              (if truthy (getp (state w) ''rejected'')
               then own_props (getp (state w) ''rejected'') else []);
            rejected = setp prop err rejected;
            newState = [(''rejected'', JObj (Made (made w)) rejected)];
            w = w\<lparr>made := made w + 1\<rparr>;
            newState =
              (if truthy (getp (CACHE g) key) then setp prop (getp (CACHE g) key) newState
               else newState)
        in (Some newState, w))"

text \<open>
  Lines 147 to 155, after either. Writing \<open>pending\<close> into a staged state that is
  \<open>undefined\<close> would be a TypeError. The clone of the pending object takes a name.
\<close>

definition on_settled :: "string \<Rightarrow> nat \<Rightarrow> obj option \<Rightarrow> wrapper \<Rightarrow> error + wrapper" where
  "on_settled prop ident newState w =
     (if map_of (tracking w) prop \<noteq> Some ident then Inr w
      else
        let w = w\<lparr>tracking := AList.delete prop (tracking w)\<rparr>;
            pending = getp (state w) ''pending''
        in if truthy pending \<and> truthy (member pending prop)
           then (case newState of
                   None \<Rightarrow> Inl TypeError
                 | Some ns \<Rightarrow>
                     Inr (setState
                            (setp ''pending'' (removeKeyFromObject (Made (made w)) prop pending) ns)
                            (w\<lparr>made := made w + 1\<rparr>)))
           else Inr (setState (case newState of None \<Rightarrow> [] | Some ns \<Rightarrow> ns) w))"

datatype outcome = Resolve jsval | Reject jsval

text \<open>The chain \<open>p.then(...).catch(...).then(...)\<close> run on one settlement of \<open>p\<close>.\<close>

definition settle ::
  "nat \<Rightarrow> string \<Rightarrow> string \<Rightarrow> nat \<Rightarrow> outcome \<Rightarrow> wrapper \<times> world \<Rightarrow> error + wrapper \<times> world" where
  "settle p prop key ident out s =
     (let (w, g) = s in
      case out of
        Resolve data \<Rightarrow>
          (let (newState, g) = on_resolve p prop key data g
           in case on_settled prop ident newState w of
                Inl err \<Rightarrow> Inl err | Inr w \<Rightarrow> Inr (w, g))
      | Reject err \<Rightarrow>
          (let (newState, w) = on_reject prop key ident err w g
           in case on_settled prop ident newState w of
                Inl err \<Rightarrow> Inl err | Inr w \<Rightarrow> Inr (w, g)))"

section \<open>The lifecycle\<close>

text \<open>The constructor, lines 172 to 211.\<close>

definition constructor :: "config \<Rightarrow> env \<Rightarrow> obj \<Rightarrow> wrapper" where
  "constructor cfg e ps =
     \<lparr>props = ps, state = [], currentKeys = [], tracking = [], counter = 0, keys = None,
      mapping = mapModelToProps cfg (get (ctx e) (contextNamespace cfg)) ps, made = 0\<rparr>"

text \<open>\<open>componentWillMount\<close> and \<open>refresh\<close>: \<open>invoke(this.props)\<close> and \<open>invoke(this.props, false, true)\<close>.\<close>

definition componentWillMount :: "config \<Rightarrow> env \<Rightarrow> wrapper \<times> world \<Rightarrow> error + wrapper \<times> world" where
  "componentWillMount cfg e s =
     (case invoke cfg e (props (fst s)) False False s of
        Inl err \<Rightarrow> Inl err | Inr (ks, s') \<Rightarrow> Inr s')"

definition refresh :: "config \<Rightarrow> env \<Rightarrow> wrapper \<times> world \<Rightarrow> error + wrapper \<times> world" where
  "refresh cfg e s =
     (case invoke cfg e (props (fst s)) False True s of
        Inl err \<Rightarrow> Inl err | Inr (ks, s') \<Rightarrow> Inr s')"

text \<open>
  \<open>componentWillReceiveProps(nextProps)\<close>, lines 217 to 221: \<open>join(this.keys)\<close> is
  read before the keys-only \<open>invoke\<close> replaces \<open>this.keys\<close>, and that \<open>invoke\<close> runs only
  when the properties are not shallowly equal.
\<close>

definition componentWillReceiveProps ::
  "config \<Rightarrow> env \<Rightarrow> obj \<Rightarrow> wrapper \<times> world \<Rightarrow> error + wrapper \<times> world" where
  "componentWillReceiveProps cfg e nextProps s =
     (if \<not> shallowEqual nextProps (props (fst s)) then
        (let old = join (keys (fst s)) in
         case invoke cfg e nextProps True False s of
           Inl err \<Rightarrow> Inl err
         | Inr (ks, s') \<Rightarrow>
             if old \<noteq> join (Some ks) then
               (case invoke cfg e nextProps False False s' of
                  Inl err \<Rightarrow> Inl err | Inr (ks', s'') \<Rightarrow> Inr s'')
             else Inr s')
      else Inr s)"

text \<open>\<open>shouldComponentUpdate(props, state)\<close> against \<open>this.props\<close> and \<open>this.state\<close>.\<close>

definition shouldComponentUpdate :: "obj \<Rightarrow> obj \<Rightarrow> wrapper \<Rightarrow> bool" where
  "shouldComponentUpdate ps st w =
     (\<not> shallowEqual ps (props w) \<or> \<not> shallowEqual st (state w))"

text \<open>
  \<open>render\<close>: the properties delivered to the wrapped component,
  \<open>{ refresh: this.refresh, ...this.mapping, ...props, ...state }\<close>.
\<close>

definition render_props :: "jsval \<Rightarrow> wrapper \<Rightarrow> obj" where
  "render_props refreshFn w =
     assign (assign (assign [(''refresh'', refreshFn)] (mapping w)) (props w)) (state w)"

text \<open>
  The host's update with new properties: \<open>componentWillReceiveProps\<close>, then the new
  properties become \<open>this.props\<close>; the flag tells whether \<open>shouldComponentUpdate\<close>,
  asked with the new properties and state against the previous ones, lets the wrapped
  component render again.
\<close>

definition receive ::
  "config \<Rightarrow> env \<Rightarrow> obj \<Rightarrow> wrapper \<times> world \<Rightarrow> error + bool \<times> wrapper \<times> world" where
  "receive cfg e nextProps s =
     (case componentWillReceiveProps cfg e nextProps s of
        Inl err \<Rightarrow> Inl err
      | Inr (w, g) \<Rightarrow>
          Inr (shouldComponentUpdate nextProps (state w) (fst s), w\<lparr>props := nextProps\<rparr>, g))"

text \<open>
  A history of one instance: what the host and the thenables do to it, in order. A
  settlement runs the handlers of an invocation only if they were attached.
\<close>

datatype event =
    Mount
  | Receive obj
  | Refresh
  | Settle nat string string nat outcome

fun step :: "config \<Rightarrow> env \<Rightarrow> event \<Rightarrow> wrapper \<times> world \<Rightarrow> error + wrapper \<times> world" where
  "step cfg e Mount s = componentWillMount cfg e s"
| "step cfg e (Receive nextProps) s =
     (case receive cfg e nextProps s of Inl err \<Rightarrow> Inl err | Inr (b, s') \<Rightarrow> Inr s')"
| "step cfg e Refresh s = refresh cfg e s"
| "step cfg e (Settle p prop key ident out) s =
     (if (p, prop, key, ident) \<in> set (thens (snd s)) then settle p prop key ident out s else Inr s)"

fun run :: "config \<Rightarrow> env \<Rightarrow> event list \<Rightarrow> wrapper \<times> world \<Rightarrow> error + wrapper \<times> world" where
  "run cfg e [] s = Inr s"
| "run cfg e (ev # evs) s =
     (case step cfg e ev s of Inl err \<Rightarrow> Inl err | Inr s' \<Rightarrow> run cfg e evs s')"

definition world0 :: world where
  "world0 = \<lparr>CACHE = [], resolved = [], calls = [], thens = []\<rparr>"

text \<open>The properties the wrapped component is given after a history, if it did not throw.\<close>

definition rendered :: "error + wrapper \<times> world \<Rightarrow> obj option" where
  "rendered r = (case r of Inl err \<Rightarrow> None | Inr (w, g) \<Rightarrow> Some (render_props (JFun 0) w))"

section \<open>What a reconcile computes\<close>

text \<open>
  The key that \<open>invoke\<close> computes for an entry of the mapping, the keys of a whole cycle,
  and how the value of an entry is obtained when it is invoked (lines 91 to 102).
\<close>

definition entry_key :: "config \<Rightarrow> obj \<Rightarrow> jsval \<Rightarrow> string" where
  "entry_key cfg ps d =
     (let (path, args) = descriptor (is_function cfg) ps d
      in cache_key (contextNamespace cfg) path args)"

definition computed_keys :: "config \<Rightarrow> obj \<Rightarrow> string list" where
  "computed_keys cfg ps = map (\<lambda>(prop, d). entry_key cfg ps d) (mapping_of cfg ps)"

definition call_of :: "jsval \<Rightarrow> jsval list \<Rightarrow> call" where
  "call_of path args =
     (case path of JFun f \<Rightarrow> Function f | JStr s \<Rightarrow> Method s args | other \<Rightarrow> Literal other)"

definition entry_call :: "config \<Rightarrow> obj \<Rightarrow> string \<times> jsval \<Rightarrow> string \<times> call" where
  "entry_call cfg ps pd =
     (let (prop, d) = pd; (path, args) = descriptor (is_function cfg) ps d
      in (prop, call_of path args))"

text \<open>
  What the call made for an entry returns, when it is the call made after \<open>n\<close> others,
  and the handlers that a forced reconcile attaches: one for every entry whose call
  returns a thenable not yet seen to resolve to a truthy value, under the key of the
  entry and with the next identifier (\<open>c\<close> is the counter before the entry).
\<close>

definition entry_result :: "config \<Rightarrow> env \<Rightarrow> obj \<Rightarrow> nat \<Rightarrow> jsval \<Rightarrow> result" where
  "entry_result cfg e ps n d =
     (let (path, args) = descriptor (is_function cfg) ps d in
      case path of
        JFun f \<Rightarrow> call_fn e f n []
      | JStr s \<Rightarrow>
          (case dlv e (get (ctx e) (contextNamespace cfg)) s of
             JFun f \<Rightarrow> call_fn e f n args
           | _ \<Rightarrow> Plain JUndefined)
      | other \<Rightarrow> Plain other)"

fun awaited ::
  "config \<Rightarrow> env \<Rightarrow> obj \<Rightarrow> world \<Rightarrow> nat \<Rightarrow> nat \<Rightarrow> obj \<Rightarrow> (nat \<times> string \<times> string \<times> nat) list" where
  "awaited cfg e ps g n c [] = []"
| "awaited cfg e ps g n c ((prop, d) # m) =
     (case unwrap_resolved g (entry_result cfg e ps n d) of
        Thenable i \<Rightarrow>
          (i, prop, entry_key cfg ps d, c + 1) # awaited cfg e ps g (n + 1) (c + 1) m
      | Plain v \<Rightarrow> awaited cfg e ps g (n + 1) c m)"

text \<open>
  A string path is resolvable when \<open>dlv\<close> finds a function under it in the model; a
  mapping is, when every string path of its descriptors is.
\<close>

definition is_method :: "config \<Rightarrow> env \<Rightarrow> string \<Rightarrow> bool" where
  "is_method cfg e s =
     (case dlv e (get (ctx e) (contextNamespace cfg)) s of JFun f \<Rightarrow> True | _ \<Rightarrow> False)"

definition resolvable :: "config \<Rightarrow> env \<Rightarrow> obj \<Rightarrow> bool" where
  "resolvable cfg e ps =
     list_all (\<lambda>(prop, d). case fst (descriptor (is_function cfg) ps d) of
                              JStr s \<Rightarrow> is_method cfg e s | _ \<Rightarrow> True)
       (mapping_of cfg ps)"

section \<open>Scenarios\<close>

text \<open>
  \<open>wire('foo', { bar: 'bar' })\<close> over a model whose \<open>bar()\<close> returns a new promise on
  every call (the promise of the call made after \<open>n\<close> others is \<open>Thenable n\<close>).
\<close>

definition bar_cfg :: config where
  "bar_cfg = \<lparr>contextNamespace = Some ''foo'',
               mapToProps = Static [(''bar'', JStr ''bar'')],
               mapModelToProps = (\<lambda>m ps. [])\<rparr>"

definition bar_env :: env where
  "bar_env = \<lparr>ctx = JObj (Given 0) [(''foo'', JObj (Given 1) [(''bar'', JFun 1)])],
               dlv = member,
               call_fn = (\<lambda>f n args. Thenable n)\<rparr>"

definition bar_key :: string where
  "bar_key = cache_key (Some ''foo'') (JStr ''bar'') []"

text \<open>
  \<open>wire('foo', props => ({ item: ['getItem', props.id] }))\<close> over a model whose
  \<open>getItem(1)\<close> returns a promise and whose \<open>getItem\<close> of anything else returns the
  string \<open>'two'\<close> at once.
\<close>

text \<open>The instance and the shared state after the mount and one \<open>refresh()\<close>.\<close>

definition bar_refreshed :: "wrapper \<times> world" where
  "bar_refreshed =
     (case run bar_cfg bar_env [Mount, Refresh] (constructor bar_cfg bar_env [], world0) of
        Inl err \<Rightarrow> (constructor bar_cfg bar_env [], world0)
      | Inr s \<Rightarrow> s)"

definition item_cfg :: config where
  "item_cfg = \<lparr>contextNamespace = Some ''foo'',
                mapToProps = Dynamic (\<lambda>ps. [(''item'', JArr (Given 2) [JStr ''getItem'', getp ps ''id''])]),
                mapModelToProps = (\<lambda>m ps. [])\<rparr>"

definition item_env :: env where
  "item_env = \<lparr>ctx = JObj (Given 0) [(''foo'', JObj (Given 1) [(''getItem'', JFun 1)])],
                dlv = member,
                call_fn = (\<lambda>f n args. if args = [JNum 1] then Thenable 0 else Plain (JStr ''two''))\<rparr>"

definition item_key :: "int \<Rightarrow> string" where
  "item_key i = cache_key (Some ''foo'') (JStr ''getItem'') [JNum i]"

text \<open>The same instance after the mount with the properties \<open>{ a: 'b' }\<close>.\<close>

definition bar_mounted :: "wrapper \<times> world" where
  "bar_mounted =
     (case run bar_cfg bar_env [Mount] (constructor bar_cfg bar_env [(''a'', JStr ''b'')], world0) of
        Inl err \<Rightarrow> (constructor bar_cfg bar_env [(''a'', JStr ''b'')], world0)
      | Inr s \<Rightarrow> s)"

text \<open>
  \<open>wire('foo', props => props.x ? { a: 'm' } : { b: 'm' })\<close> over a model whose
  \<open>m()\<close> returns a new promise on every call, mounted with \<open>{ x: true }\<close>.
\<close>

definition ab_cfg :: config where
  "ab_cfg = \<lparr>contextNamespace = Some ''foo'',
              mapToProps = Dynamic (\<lambda>ps. if truthy (getp ps ''x'')
                                          then [(''a'', JStr ''m'')] else [(''b'', JStr ''m'')]),
              mapModelToProps = (\<lambda>m ps. [])\<rparr>"

definition ab_env :: env where
  "ab_env = \<lparr>ctx = JObj (Given 0) [(''foo'', JObj (Given 1) [(''m'', JFun 1)])],
              dlv = member,
              call_fn = (\<lambda>f n args. Thenable n)\<rparr>"

definition ab_mounted :: "wrapper \<times> world" where
  "ab_mounted =
     (case run ab_cfg ab_env [Mount] (constructor ab_cfg ab_env [(''x'', JBool True)], world0) of
        Inl err \<Rightarrow> (constructor ab_cfg ab_env [(''x'', JBool True)], world0)
      | Inr s \<Rightarrow> s)"

text \<open>A model without \<open>bar\<close>.\<close>

definition missing_env :: env where
  "missing_env = \<lparr>ctx = JObj (Given 0) [(''foo'', JObj (Given 1) [])],
                   dlv = member,
                   call_fn = (\<lambda>f n args. Thenable n)\<rparr>"

text \<open>
  \<open>wire('news', { story: ['getStory', 'id', 'lang'] })\<close> over a model whose
  \<open>getStory\<close> returns a new promise on every call.
\<close>

definition story_cfg :: config where
  "story_cfg = \<lparr>contextNamespace = Some ''news'',
                 mapToProps = Static [(''story'', JArr (Given 2) [JStr ''getStory'', JStr ''id'', JStr ''lang''])],
                 mapModelToProps = (\<lambda>m ps. [])\<rparr>"

definition story_env :: env where
  "story_env = \<lparr>ctx = JObj (Given 0) [(''news'', JObj (Given 1) [(''getStory'', JFun 1)])],
                 dlv = member,
                 call_fn = (\<lambda>f n args. Thenable n)\<rparr>"

text \<open>
  \<open>wire('foo', { val: 'getVal' })\<close> over a model whose \<open>getVal()\<close> returns a promise,
  after the mount with \<open>{ a: 'b' }\<close> and the resolution of the promise to \<open>NaN\<close>.
\<close>

definition val_cfg :: config where
  "val_cfg = \<lparr>contextNamespace = Some ''foo'',
               mapToProps = Static [(''val'', JStr ''getVal'')],
               mapModelToProps = (\<lambda>m ps. [])\<rparr>"

definition val_env :: env where
  "val_env = \<lparr>ctx = JObj (Given 0) [(''foo'', JObj (Given 1) [(''getVal'', JFun 1)])],
               dlv = member,
               call_fn = (\<lambda>f n args. Thenable n)\<rparr>"

definition val_key :: string where
  "val_key = cache_key (Some ''foo'') (JStr ''getVal'') []"

definition val_is_nan :: "wrapper \<times> world" where
  "val_is_nan =
     (case run val_cfg val_env [Mount, Settle 0 ''val'' val_key 1 (Resolve JNaN)]
             (constructor val_cfg val_env [(''a'', JStr ''b'')], world0) of
        Inl err \<Rightarrow> (constructor val_cfg val_env [(''a'', JStr ''b'')], world0)
      | Inr s \<Rightarrow> s)"


section \<open>Objects\<close>

lemma JSON_stringify_array:
  "JSON_stringify (JArr r (ns_val ns # path # args)) = Some (cache_key ns path args)"
  by (simp add: JSON_stringify_def cache_key_def json_elem_def [abs_def])

lemma getp_setp_same: "getp (setp k v ob) k = v"
  by (simp add: getp_def setp_def update_conv')

lemma getp_setp_other: "k' \<noteq> k \<Longrightarrow> getp (setp k v ob) k' = getp ob k'"
  by (simp add: getp_def setp_def update_conv')

lemma has_key_iff: "has_key ob k \<longleftrightarrow> k \<in> fst ` set ob"
  by (simp add: has_key_def map_of_eq_None_iff)

lemma strict_eq_self: "v \<noteq> JNaN \<Longrightarrow> strict_eq v v"
  by (cases v) (simp_all add: strict_eq_def)

text \<open>An object is shallowly equal to itself when none of its members is \<open>NaN\<close>.\<close>

lemma shallowEqual_self:
  assumes "list_all (\<lambda>(k, v). v \<noteq> JNaN) a"
  shows "shallowEqual a a"
proof -
  have "\<not> differs a a key" if "key \<in> fst ` set a" for key
  proof -
    have "map_of a key \<noteq> None"
      using that by (simp add: map_of_eq_None_iff)
    then obtain v where v: "map_of a key = Some v" by blast
    then have "(key, v) \<in> set a" by (rule map_of_SomeD)
    then have "v \<noteq> JNaN" using assms by (auto simp: list_all_iff)
    then show ?thesis using v by (simp add: differs_def getp_def strict_eq_self)
  qed
  moreover have "key_in key a" if "key \<in> fst ` set a" for key
    using that by (simp add: key_in_def has_key_iff)
  ultimately show ?thesis by (simp add: shallowEqual_def list_all_iff)
qed

section \<open>Pending after the last settlement\<close>

text \<open>
  C1. The property \<open>bar\<close> is pending from the mount on: the wrapped component is given
  \<open>pending = { bar: true }\<close>. When its promise resolves to \<open>'BAR'\<close>, no property is in
  flight any more, and the wrapped component is given \<open>bar = 'BAR'\<close> and a \<open>pending\<close>
  that is present and is the empty object, where \<open>undefined\<close> is documented:
  \<open>removeKeyFromObject\<close> returns the emptied clone.
\<close>

theorem pending_empty_object_after_last_settlement:
  "map_option (\<lambda>ps. getp ps ''pending'')
     (rendered (run bar_cfg bar_env [Mount]
        (constructor bar_cfg bar_env [(''a'', JStr ''b'')], world0)))
     = Some (JObj (Made 0) [(''bar'', JBool True)])
   \<and> map_option (\<lambda>ps. (getp ps ''bar'', getp ps ''pending'', has_key ps ''pending''))
     (rendered (run bar_cfg bar_env
        [Mount, Settle 0 ''bar'' bar_key 1 (Resolve (JStr ''BAR''))]
        (constructor bar_cfg bar_env [(''a'', JStr ''b'')], world0)))
     = Some (JStr ''BAR'', JObj (Made 2) [], True)
   \<and> removeKeyFromObject (Made 2) ''bar'' (JObj (Made 0) [(''bar'', JBool True)]) = JObj (Made 2) []"
  by code_simp

section \<open>Settlements of superseded invocations\<close>

text \<open>
  C2. The instance is mounted with \<open>id = 1\<close>: invocation 1 for \<open>item\<close> waits on a
  promise. The properties change to \<open>id = 2\<close>: the newer invocation for \<open>item\<close> yields
  \<open>'two'\<close> at once, which is rendered. The non-thenable branch leaves
  \<open>tracking.item\<close> at 1, so when the older promise then resolves to \<open>'one'\<close> (or
  rejects with \<open>'boom'\<close>) its settlement passes the identifier gate and is committed:
  the rendered \<open>item\<close> for \<open>id = 2\<close> becomes \<open>'one'\<close> (or \<open>rejected.item\<close>
  becomes \<open>'boom'\<close>). When the newer invocation waits on a promise too, as after
  \<open>refresh()\<close> in the other scenario, the older settlement changes nothing of what is
  rendered: the last part.
\<close>

theorem older_settlement_after_synchronous_newer_is_committed:
  "map_option (\<lambda>ps. (getp ps ''id'', getp ps ''item'', getp ps ''rejected''))
     (rendered (run item_cfg item_env [Mount, Receive [(''id'', JNum 2)]]
        (constructor item_cfg item_env [(''id'', JNum 1)], world0)))
     = Some (JNum 2, JStr ''two'', JUndefined)
   \<and> map_option (\<lambda>ps. (getp ps ''id'', getp ps ''item'', getp ps ''rejected''))
     (rendered (run item_cfg item_env
        [Mount, Receive [(''id'', JNum 2)], Settle 0 ''item'' (item_key 1) 1 (Resolve (JStr ''one''))]
        (constructor item_cfg item_env [(''id'', JNum 1)], world0)))
     = Some (JNum 2, JStr ''one'', JUndefined)
   \<and> map_option (\<lambda>ps. (getp ps ''id'', getp ps ''item'', getp ps ''rejected''))
     (rendered (run item_cfg item_env
        [Mount, Receive [(''id'', JNum 2)], Settle 0 ''item'' (item_key 1) 1 (Reject (JStr ''boom''))]
        (constructor item_cfg item_env [(''id'', JNum 1)], world0)))
     = Some (JNum 2, JStr ''two'', JObj (Made 2) [(''item'', JStr ''boom'')])
   \<and> rendered (run bar_cfg bar_env
        [Mount, Refresh, Settle 0 ''bar'' bar_key 1 (Resolve (JStr ''old''))]
        (constructor bar_cfg bar_env [], world0))
     = rendered (run bar_cfg bar_env [Mount, Refresh] (constructor bar_cfg bar_env [], world0))
   \<and> map_option (\<lambda>ps. (getp ps ''bar'', getp ps ''pending''))
     (rendered (run bar_cfg bar_env [Mount, Refresh] (constructor bar_cfg bar_env [], world0)))
     = Some (JUndefined, JObj (Made 0) [(''bar'', JBool True)])"
  by code_simp

section \<open>The cached value shown after a rejection\<close>

text \<open>
  C3. \<open>bar\<close> is invoked at the mount and again by \<open>refresh()\<close>, under the same key.
  The first promise resolves to \<open>V\<close>, which is stored in the cache under that key; then
  the second, the latest invocation for \<open>bar\<close>, rejects with \<open>'ERR'\<close>. With
  \<open>V = 7\<close> the wrapped component is given \<open>rejected.bar = 'ERR'\<close> and \<open>bar = 7\<close>.
  With \<open>V = 0\<close> the cache holds 0 under the key and the wrapped component is given
  \<open>rejected.bar = 'ERR'\<close> and \<open>bar = undefined\<close>: the failure handler tests the cached
  value for truth, where the invocation itself tests it against \<open>undefined\<close>. (When the
  first promise resolves to 0 before \<open>refresh()\<close> is called, \<open>bar = 0\<close> is rendered
  by the invocation itself and stays: the last part.)
\<close>

theorem falsy_cached_value_not_shown_after_rejection:
  "map_option (\<lambda>ps. (getp ps ''rejected'', getp ps ''bar''))
     (rendered (run bar_cfg bar_env
        [Mount, Refresh, Settle 0 ''bar'' bar_key 1 (Resolve (JNum 7)),
         Settle 1 ''bar'' bar_key 2 (Reject (JStr ''ERR''))]
        (constructor bar_cfg bar_env [], world0)))
     = Some (JObj (Made 4) [(''bar'', JStr ''ERR'')], JNum 7)
   \<and> map_option (\<lambda>ps. (getp ps ''rejected'', getp ps ''bar''))
     (rendered (run bar_cfg bar_env
        [Mount, Refresh, Settle 0 ''bar'' bar_key 1 (Resolve (JNum 0)),
         Settle 1 ''bar'' bar_key 2 (Reject (JStr ''ERR''))]
        (constructor bar_cfg bar_env [], world0)))
     = Some (JObj (Made 4) [(''bar'', JStr ''ERR'')], JUndefined)
   \<and> (case run bar_cfg bar_env
        [Mount, Refresh, Settle 0 ''bar'' bar_key 1 (Resolve (JNum 0)),
         Settle 1 ''bar'' bar_key 2 (Reject (JStr ''ERR''))]
        (constructor bar_cfg bar_env [], world0) of
        Inl err \<Rightarrow> False
      | Inr (w, g) \<Rightarrow> has_key (CACHE g) bar_key \<and> getp (CACHE g) bar_key = JNum 0)
   \<and> map_option (\<lambda>ps. (getp ps ''rejected'', getp ps ''bar''))
     (rendered (run bar_cfg bar_env
        [Mount, Settle 0 ''bar'' bar_key 1 (Resolve (JNum 0)), Refresh,
         Settle 1 ''bar'' bar_key 2 (Reject (JStr ''ERR''))]
        (constructor bar_cfg bar_env [], world0)))
     = Some (JObj (Made 5) [(''bar'', JStr ''ERR'')], JNum 0)"
  by code_simp

section \<open>A stale success\<close>

text \<open>
  C10. When the promise of an invocation resolves although the invocation's identifier is
  no longer the one recorded in \<open>tracking\<close> for its property, the instance is left as it
  was, so the wrapped component is given the same properties; but the cache entry of the
  invocation's key and the \<open>__wiretieResolved\<close> field of the promise both hold the
  resolved value afterwards.
\<close>

theorem stale_success_writes_cache_and_memo:
  assumes "map_of (tracking w) prop \<noteq> Some ident"
  shows "settle p prop key ident (Resolve data) (w, g) =
           Inr (w, g\<lparr>resolved := AList.update p data (resolved g),
                      CACHE := setp key data (CACHE g)\<rparr>)
         \<and> (\<forall>w' g'. settle p prop key ident (Resolve data) (w, g) = Inr (w', g') \<longrightarrow>
               render_props rf w' = render_props rf w
             \<and> getp (CACHE g') key = data
             \<and> wiretieResolved g' p = data)"
  using assms
  by (auto simp: settle_def on_resolve_def on_settled_def Let_def wiretieResolved_def
      getp_setp_same update_conv')

theorem stale_success_writes_cache_and_memo_witness:
  "(0, ''bar'', bar_key, 1) \<in> set (thens (snd bar_refreshed))
   \<and> map_of (tracking (fst bar_refreshed)) ''bar'' \<noteq> Some 1
   \<and> settle 0 ''bar'' bar_key 1 (Resolve (JNum 5)) bar_refreshed =
       Inr (fst bar_refreshed,
            (snd bar_refreshed)\<lparr>resolved := AList.update 0 (JNum 5) (resolved (snd bar_refreshed)),
                                  CACHE := setp bar_key (JNum 5) (CACHE (snd bar_refreshed))\<rparr>)"
proof -
  have attached: "(0, ''bar'', bar_key, 1) \<in> set (thens (snd bar_refreshed))"
    by code_simp
  have stale: "map_of (tracking (fst bar_refreshed)) ''bar'' \<noteq> Some 1"
    by code_simp
  show ?thesis
    using attached stale
      stale_success_writes_cache_and_memo
        [OF stale, of 0 bar_key "JNum 5" "snd bar_refreshed" undefined]
    by simp
qed

section \<open>The loop of invoke\<close>

lemma invoke_loop_keysOnly:
  "invoke_loop cfg e (is_function cfg) ps True r m ks s =
     Inr (ks @ map (\<lambda>(prop, d). entry_key cfg ps d) m, s)"
  by (induction m arbitrary: ks) (auto simp: entry_key_def Let_def split: prod.splits)

lemma invoke_keysOnly:
  "invoke cfg e ps True r (w, g) =
     Inr (computed_keys cfg ps, w\<lparr>keys := Some (computed_keys cfg ps)\<rparr>, g)"
  by (simp add: invoke_def invoke_loop_keysOnly computed_keys_def)

lemma invoke_loop_unchanged:
  "list_all (\<lambda>(prop, d). map_of (currentKeys (fst s)) prop = Some (entry_key cfg ps d)) m \<Longrightarrow>
   invoke_loop cfg e (is_function cfg) ps False False m ks s =
     Inr (ks @ map (\<lambda>(prop, d). entry_key cfg ps d) m, s)"
  by (induction m arbitrary: ks) (auto simp: entry_key_def Let_def split: prod.splits)

text \<open>\<open>invoke\<close> does not read \<open>this.keys\<close>.\<close>

lemma issue_keys:
  "issue cfg e prop path args key (w\<lparr>keys := k\<rparr>, g) =
     (case issue cfg e prop path args key (w, g) of
        Inl err \<Rightarrow> Inl err | Inr (w', g') \<Rightarrow> Inr (w'\<lparr>keys := k\<rparr>, g'))"
  by (auto simp: issue_def start_async_def setState_def Let_def
      split: sum.splits prod.splits result.splits)

lemma invoke_loop_keys:
  "invoke_loop cfg e isF ps ko r m ks (w\<lparr>keys := k\<rparr>, g) =
     (case invoke_loop cfg e isF ps ko r m ks (w, g) of
        Inl err \<Rightarrow> Inl err | Inr (ks', w', g') \<Rightarrow> Inr (ks', w'\<lparr>keys := k\<rparr>, g'))"
proof (induction m arbitrary: ks w g ko r)
  case Nil
  then show ?case by simp
next
  case (Cons pd m)
  obtain pr d where pd: "pd = (pr, d)" by (cases pd)
  show ?case
    unfolding pd
    by (auto simp: Let_def issue_keys Cons.IH split: prod.splits sum.splits)
qed

lemma invoke_keys:
  "invoke cfg e ps ko r (w\<lparr>keys := k\<rparr>, g) = invoke cfg e ps ko r (w, g)"
  by (auto simp: invoke_def invoke_loop_keys split: sum.splits prod.splits)

section \<open>An update that changes nothing\<close>

text \<open>
  C6, as the code has it. When the incoming properties are shallowly equal to the current
  ones and the key computed for every entry of the mapping is the key recorded in
  \<open>currentKeys\<close> for its property, \<open>componentWillReceiveProps\<close> leaves the instance and
  the shared state as they were: the log of calls is the same, so no model method was
  invoked, and \<open>currentKeys\<close>, \<open>tracking\<close>, \<open>counter\<close> and the rendered state are the
  same; even a full \<open>invoke\<close> with these properties would skip every entry.
  \<open>shouldComponentUpdate\<close> then compares the state with itself, and answers false, so
  that the wrapped component is not rendered again, when no member of the state is
  \<open>NaN\<close>.
\<close>

theorem unchanged_update_does_nothing:
  assumes "shallowEqual nextProps (props w)"
    and "list_all (\<lambda>(prop, d). map_of (currentKeys w) prop = Some (entry_key cfg nextProps d))
           (mapping_of cfg nextProps)"
  shows "componentWillReceiveProps cfg e nextProps (w, g) = Inr (w, g)
       \<and> invoke cfg e nextProps False False (w, g) =
           Inr (computed_keys cfg nextProps, w\<lparr>keys := Some (computed_keys cfg nextProps)\<rparr>, g)
       \<and> receive cfg e nextProps (w, g) =
           Inr (\<not> shallowEqual (state w) (state w), w\<lparr>props := nextProps\<rparr>, g)
       \<and> (list_all (\<lambda>(k, v). v \<noteq> JNaN) (state w) \<longrightarrow>
            receive cfg e nextProps (w, g) = Inr (False, w\<lparr>props := nextProps\<rparr>, g))"
proof -
  have a: "componentWillReceiveProps cfg e nextProps (w, g) = Inr (w, g)"
    using assms(1) by (simp add: componentWillReceiveProps_def)
  have b: "invoke cfg e nextProps False False (w, g) =
           Inr (computed_keys cfg nextProps, w\<lparr>keys := Some (computed_keys cfg nextProps)\<rparr>, g)"
    using invoke_loop_unchanged [of "(w, g)" cfg nextProps "mapping_of cfg nextProps" e "[]"] assms(2)
    by (simp add: invoke_def computed_keys_def)
  have c: "receive cfg e nextProps (w, g) =
           Inr (\<not> shallowEqual (state w) (state w), w\<lparr>props := nextProps\<rparr>, g)"
    using assms(1) a by (simp add: receive_def shouldComponentUpdate_def)
  have d: "receive cfg e nextProps (w, g) = Inr (False, w\<lparr>props := nextProps\<rparr>, g)"
    if "list_all (\<lambda>(k, v). v \<noteq> JNaN) (state w)"
    using c shallowEqual_self [OF that] by simp
  show ?thesis using a b c d by blast
qed

theorem unchanged_update_does_nothing_witness:
  "shallowEqual [(''a'', JStr ''b'')] (props (fst bar_mounted))
   \<and> list_all (\<lambda>(prop, d). map_of (currentKeys (fst bar_mounted)) prop
                               = Some (entry_key bar_cfg [(''a'', JStr ''b'')] d))
        (mapping_of bar_cfg [(''a'', JStr ''b'')])
   \<and> list_all (\<lambda>(k, v). v \<noteq> JNaN) (state (fst bar_mounted))
   \<and> receive bar_cfg bar_env [(''a'', JStr ''b'')] bar_mounted =
        Inr (False, (fst bar_mounted)\<lparr>props := [(''a'', JStr ''b'')]\<rparr>, snd bar_mounted)
   \<and> calls (snd bar_mounted) = [(''bar'', Method ''bar'' [])]"
proof -
  have h1: "shallowEqual [(''a'', JStr ''b'')] (props (fst bar_mounted))"
    by code_simp
  have h2: "list_all (\<lambda>(prop, d). map_of (currentKeys (fst bar_mounted)) prop
                               = Some (entry_key bar_cfg [(''a'', JStr ''b'')] d))
        (mapping_of bar_cfg [(''a'', JStr ''b'')])"
    by code_simp
  have h3: "calls (snd bar_mounted) = [(''bar'', Method ''bar'' [])]"
    by code_simp
  have h4: "list_all (\<lambda>(k, v). v \<noteq> JNaN) (state (fst bar_mounted))"
    by code_simp
  have "receive bar_cfg bar_env [(''a'', JStr ''b'')] bar_mounted =
        Inr (False, (fst bar_mounted)\<lparr>props := [(''a'', JStr ''b'')]\<rparr>, snd bar_mounted)"
    using unchanged_update_does_nothing
      [OF h1 h2, of bar_env "snd bar_mounted", unfolded prod.collapse] h4
    by blast
  then show ?thesis using h1 h2 h3 h4 by simp
qed

text \<open>
  C6 as stated fails. The promise of \<open>val\<close> resolved to \<open>NaN\<close>, which is rendered. The
  instance then receives the properties it has: they are shallowly equal, the key of
  \<open>val\<close> is the recorded one, and nothing is invoked; but \<open>NaN !== NaN\<close>, so
  \<open>shouldComponentUpdate\<close> answers true and the wrapped component is rendered again.
\<close>

theorem unchanged_update_renders_again_when_state_holds_nan:
  "shallowEqual [(''a'', JStr ''b'')] (props (fst val_is_nan))
   \<and> list_all (\<lambda>(prop, d). map_of (currentKeys (fst val_is_nan)) prop
                               = Some (entry_key val_cfg [(''a'', JStr ''b'')] d))
        (mapping_of val_cfg [(''a'', JStr ''b'')])
   \<and> getp (state (fst val_is_nan)) ''val'' = JNaN
   \<and> map_sum id fst (receive val_cfg val_env [(''a'', JStr ''b'')] val_is_nan) = Inr True
   \<and> map_sum id (\<lambda>r. calls (snd (snd r))) (receive val_cfg val_env [(''a'', JStr ''b'')] val_is_nan)
       = Inr (calls (snd val_is_nan))
   \<and> shouldComponentUpdate [(''a'', JStr ''b'')] (state (fst val_is_nan)) (fst val_is_nan)"
  by code_simp

section \<open>When an update reconciles\<close>

text \<open>
  C4, as the code has it. \<open>componentWillReceiveProps\<close> runs the full \<open>invoke\<close> exactly
  when the incoming properties are not shallowly equal to the current ones and, besides,
  the keys computed for them, joined, differ from the joined keys of the previous cycle.
  When the properties are shallowly equal nothing is done at all; when they differ but
  the keys do not, only \<open>this.keys\<close> is replaced by the keys just computed.
\<close>

theorem receive_props_reconciles_only_when_props_and_keys_differ:
  "componentWillReceiveProps cfg e nextProps (w, g) =
     (if \<not> shallowEqual nextProps (props w)
         \<and> join (keys w) \<noteq> join (Some (computed_keys cfg nextProps))
      then (case invoke cfg e nextProps False False (w, g) of
              Inl err \<Rightarrow> Inl err | Inr (ks, s') \<Rightarrow> Inr s')
      else if shallowEqual nextProps (props w) then Inr (w, g)
      else Inr (w\<lparr>keys := Some (computed_keys cfg nextProps)\<rparr>, g))"
  by (simp add: componentWillReceiveProps_def invoke_keysOnly invoke_keys Let_def)

text \<open>
  C4 as stated fails. The instance is mounted with \<open>{ x: true }\<close>, so \<open>a\<close> was
  invoked under the key of \<open>m\<close>. With \<open>{ x: false }\<close> the properties are shallowly
  different and the mapping is \<open>{ b: 'm' }\<close>, whose only key is that same key: the full
  \<open>invoke\<close> would call \<open>m\<close> for \<open>b\<close>, but \<open>componentWillReceiveProps\<close> calls
  nothing and records no key for \<open>b\<close>.
\<close>

theorem shallow_difference_alone_does_not_reconcile:
  "\<not> shallowEqual [(''x'', JBool False)] (props (fst ab_mounted))
   \<and> map_sum id (\<lambda>s. calls (snd s))
        (componentWillReceiveProps ab_cfg ab_env [(''x'', JBool False)] ab_mounted)
       = Inr [(''a'', Method ''m'' [])]
   \<and> map_sum id (\<lambda>s. calls (snd (snd s)))
        (invoke ab_cfg ab_env [(''x'', JBool False)] False False ab_mounted)
       = Inr [(''a'', Method ''m'' []), (''b'', Method ''m'' [])]
   \<and> map_sum id (\<lambda>s. map_of (currentKeys (fst s)) ''b'')
        (componentWillReceiveProps ab_cfg ab_env [(''x'', JBool False)] ab_mounted)
       = Inr None"
  by code_simp

section \<open>A forced reconcile\<close>

lemma unwrap_resolved_cong:
  "resolved g1 = resolved g \<Longrightarrow> unwrap_resolved g1 p = unwrap_resolved g p"
  by (simp add: unwrap_resolved_def wiretieResolved_def split: result.splits)

lemma awaited_cong:
  "resolved g1 = resolved g \<Longrightarrow> awaited cfg e ps g1 n c m = awaited cfg e ps g n c m"
proof (induction m arbitrary: n c)
  case Nil
  then show ?case by simp
next
  case (Cons pd m)
  obtain pr d where pd: "pd = (pr, d)" by (cases pd)
  show ?case
    unfolding pd
    using Cons.IH [OF Cons.prems] unwrap_resolved_cong [OF Cons.prems]
    by (simp split: result.splits)
qed

text \<open>What \<open>start_async\<close> leaves in the shared state and in the counter.\<close>

lemma start_async_world:
  "snd (start_async prop key p (w, g)) = g\<lparr>thens := thens g @ [(p, prop, key, counter w + 1)]\<rparr>"
  by (simp add: start_async_def Let_def)

lemma start_async_counter:
  "counter (fst (start_async prop key p (w, g))) = counter w + 1"
  by (simp add: start_async_def Let_def setState_def)

lemma call_path_resolvable:
  assumes "descriptor (is_function cfg) ps d = (path, args)"
    and "case path of JStr s \<Rightarrow> is_method cfg e s | _ \<Rightarrow> True"
  shows "call_path cfg e prop path args g =
           Inr (entry_result cfg e ps (length (calls g)) d,
                g\<lparr>calls := calls g @ [(prop, call_of path args)]\<rparr>)"
  using assms
  by (auto simp: call_path_def call_of_def entry_result_def is_method_def Let_def
      split: jsval.splits if_splits)

text \<open>What one invoked entry of a resolvable mapping does to the logs and the counter.\<close>

lemma issue_resolvable:
  assumes "descriptor (is_function cfg) ps d = (path, args)"
    and "case path of JStr s \<Rightarrow> is_method cfg e s | _ \<Rightarrow> True"
  shows "\<exists>w' g'. issue cfg e prop path args key (w, g) = Inr (w', g')
           \<and> calls g' = calls g @ [(prop, call_of path args)]
           \<and> CACHE g' = CACHE g \<and> resolved g' = resolved g
           \<and> (case unwrap_resolved g (entry_result cfg e ps (length (calls g)) d) of
                 Thenable i \<Rightarrow>
                   thens g' = thens g @ [(i, prop, key, counter w + 1)]
                   \<and> counter w' = counter w + 1
               | Plain v \<Rightarrow> thens g' = thens g \<and> counter w' = counter w)"
proof -
  let ?g1 = "g\<lparr>calls := calls g @ [(prop, call_of path args)]\<rparr>"
  let ?w1 = "w\<lparr>currentKeys := AList.update prop key (currentKeys w)\<rparr>"
  let ?r = "entry_result cfg e ps (length (calls g)) d"
  have cp: "call_path cfg e prop path args g = Inr (?r, ?g1)"
    using call_path_resolvable [OF assms] .
  have u: "unwrap_resolved ?g1 ?r = unwrap_resolved g ?r"
    by (rule unwrap_resolved_cong) simp
  show ?thesis
  proof (cases "unwrap_resolved g ?r")
    case (Plain v)
    then have "issue cfg e prop path args key (w, g) = Inr (setState [(prop, v)] ?w1, ?g1)"
      using cp u by (simp add: issue_def Let_def)
    then show ?thesis using Plain by (simp add: setState_def)
  next
    case (Thenable i)
    then have i: "issue cfg e prop path args key (w, g) = Inr (start_async prop key i (?w1, ?g1))"
      using cp u by (simp add: issue_def Let_def)
    obtain w' g' where sa: "start_async prop key i (?w1, ?g1) = (w', g')"
      by (cases "start_async prop key i (?w1, ?g1)")
    have "g' = ?g1\<lparr>thens := thens ?g1 @ [(i, prop, key, counter ?w1 + 1)]\<rparr>"
      using start_async_world [of "prop" key i ?w1 ?g1] sa by simp
    moreover have "counter w' = counter ?w1 + 1"
      using start_async_counter [of "prop" key i ?w1 ?g1] sa by simp
    ultimately show ?thesis using i sa Thenable by simp
  qed
qed

lemma invoke_loop_refresh:
  assumes "list_all (\<lambda>(prop, d). case fst (descriptor (is_function cfg) ps d) of
                              JStr s \<Rightarrow> is_method cfg e s | _ \<Rightarrow> True) m"
  shows "\<exists>w' g'. invoke_loop cfg e (is_function cfg) ps False True m ks (w, g) =
             Inr (ks @ map (\<lambda>(prop, d). entry_key cfg ps d) m, w', g')
           \<and> calls g' = calls g @ map (entry_call cfg ps) m
           \<and> thens g' = thens g @ awaited cfg e ps g (length (calls g)) (counter w) m
           \<and> CACHE g' = CACHE g \<and> resolved g' = resolved g"
  using assms
proof (induction m arbitrary: ks w g)
  case Nil
  then show ?case by simp
next
  case (Cons pd m)
  obtain pr d where pd: "pd = (pr, d)" by (cases pd)
  obtain path args where de: "descriptor (is_function cfg) ps d = (path, args)"
    by (cases "descriptor (is_function cfg) ps d")
  let ?key = "cache_key (contextNamespace cfg) path args"
  let ?r = "unwrap_resolved g (entry_result cfg e ps (length (calls g)) d)"
  have key: "entry_key cfg ps d = ?key" using de by (simp add: entry_key_def)
  have ok: "case path of JStr s \<Rightarrow> is_method cfg e s | _ \<Rightarrow> True"
    using Cons.prems pd de by simp
  obtain w1 g1 where is1: "issue cfg e pr path args ?key (w, g) = Inr (w1, g1)"
    and c1: "calls g1 = calls g @ [(pr, call_of path args)]"
    and k1: "CACHE g1 = CACHE g" and r1: "resolved g1 = resolved g"
    and t1: "case ?r of
                 Thenable i \<Rightarrow>
                   thens g1 = thens g @ [(i, pr, ?key, counter w + 1)]
                   \<and> counter w1 = counter w + 1
               | Plain v \<Rightarrow> thens g1 = thens g \<and> counter w1 = counter w"
    using issue_resolvable [OF de ok, of pr ?key w g] by blast
  have rest: "list_all (\<lambda>(prop, d). case fst (descriptor (is_function cfg) ps d) of
                              JStr s \<Rightarrow> is_method cfg e s | _ \<Rightarrow> True) m"
    using Cons.prems by simp
  obtain w' g' where
    l: "invoke_loop cfg e (is_function cfg) ps False True m (ks @ [?key]) (w1, g1) =
        Inr ((ks @ [?key]) @ map (\<lambda>(prop, d). entry_key cfg ps d) m, w', g')"
    and c: "calls g' = calls g1 @ map (entry_call cfg ps) m"
    and t: "thens g' = thens g1 @ awaited cfg e ps g1 (length (calls g1)) (counter w1) m"
    and k: "CACHE g' = CACHE g1" and r: "resolved g' = resolved g1"
    using Cons.IH [OF rest] by blast
  have t': "thens g' = thens g1 @ awaited cfg e ps g (length (calls g) + 1) (counter w1) m"
    using t c1 awaited_cong [OF r1] by simp
  have r1': "invoke_loop cfg e (is_function cfg) ps False True (pd # m) ks (w, g) =
          Inr (ks @ map (\<lambda>(prop, d). entry_key cfg ps d) (pd # m), w', g')"
    using pd de is1 l key by simp
  have r2: "calls g' = calls g @ map (entry_call cfg ps) (pd # m)"
    using c c1 pd de by (simp add: entry_call_def)
  have r3: "thens g' = thens g @ awaited cfg e ps g (length (calls g)) (counter w) (pd # m)"
  proof (cases ?r)
    case (Plain v)
    then show ?thesis using t' t1 pd by simp
  next
    case (Thenable i)
    then show ?thesis using t' t1 pd key by simp
  qed
  show ?case using r1' r2 r3 k k1 r r1 by simp
qed

lemma invoke_refresh:
  assumes "resolvable cfg e ps"
  shows "\<exists>w' g'. invoke cfg e ps False True (w, g) = Inr (computed_keys cfg ps, w', g')
           \<and> calls g' = calls g @ map (entry_call cfg ps) (mapping_of cfg ps)
           \<and> thens g' = thens g @ awaited cfg e ps g (length (calls g)) (counter w) (mapping_of cfg ps)
           \<and> CACHE g' = CACHE g \<and> resolved g' = resolved g"
proof -
  obtain w' g' where
    "invoke_loop cfg e (is_function cfg) ps False True (mapping_of cfg ps) [] (w, g) =
       Inr ([] @ map (\<lambda>(prop, d). entry_key cfg ps d) (mapping_of cfg ps), w', g')"
    and "calls g' = calls g @ map (entry_call cfg ps) (mapping_of cfg ps)"
    and "thens g' = thens g @ awaited cfg e ps g (length (calls g)) (counter w) (mapping_of cfg ps)"
    and "CACHE g' = CACHE g" and "resolved g' = resolved g"
    using invoke_loop_refresh [where m = "mapping_of cfg ps" and ks = "[]"] assms
    unfolding resolvable_def by blast
  then show ?thesis
    by (auto simp: invoke_def computed_keys_def)
qed






section \<open>Configuration errors and rejections\<close>

lemma issue_unresolvable:
  assumes "\<not> is_method cfg e s"
  shows "issue cfg e prop (JStr s) args key (w, g) =
           Inl (if truthy (dlv e (get (ctx e) (contextNamespace cfg)) s) then TypeError
                else NotFound (contextNamespace cfg) s)"
  using assms
  by (auto simp: issue_def call_path_def is_method_def Let_def split: jsval.splits)

lemma invoke_loop_throws:
  assumes "(pr, d) \<in> set m"
    and "fst (descriptor (is_function cfg) ps d) = JStr s"
    and "\<not> is_method cfg e s"
  shows "isl (invoke_loop cfg e (is_function cfg) ps False True m ks (w, g))"
  using assms(1)
proof (induction m arbitrary: ks w g)
  case Nil
  then show ?case by simp
next
  case (Cons pd m)
  obtain pr' d' where pd: "pd = (pr', d')" by (cases pd)
  obtain path args where de: "descriptor (is_function cfg) ps d' = (path, args)"
    by (cases "descriptor (is_function cfg) ps d'")
  show ?case
  proof (cases "issue cfg e pr' path args (cache_key (contextNamespace cfg) path args) (w, g)")
    case (Inl err)
    then show ?thesis using pd de by simp
  next
    case (Inr s')
    obtain w1 g1 where s': "s' = (w1, g1)" by (cases s')
    have "pd \<noteq> (pr, d)"
    proof
      assume "pd = (pr, d)"
      then have "path = JStr s" using pd de assms(2) by simp
      then show False using Inr issue_unresolvable [OF assms(3)] by simp
    qed
    then have "(pr, d) \<in> set m" using Cons.prems by simp
    then have "isl (invoke_loop cfg e (is_function cfg) ps False True m
                  (ks @ [cache_key (contextNamespace cfg) path args]) (w1, g1))"
      using Cons.IH by blast
    then show ?thesis using pd de Inr s' by simp
  qed
qed

lemma settle_reject_stale:
  "map_of (tracking w) prop \<noteq> Some ident \<Longrightarrow>
   settle p prop key ident (Reject err) (w, g) = Inr (w, g)"
  by (simp add: settle_def on_reject_def on_settled_def)

lemma settle_reject_current:
  assumes "map_of (tracking w) prop = Some ident" and "prop \<noteq> ''rejected''"
  shows "\<exists>w'. settle p prop key ident (Reject err) (w, g) = Inr (w', g)
           \<and> member (getp (state w') ''rejected'') prop = err"
  using assms
  by (auto simp: settle_def on_reject_def on_settled_def Let_def setState_def assign_def
      getp_def setp_def member_def update_conv')

text \<open>
  C8. When the string path of a descriptor does not resolve to a function of the model,
  invoking the entry throws (not found when the lookup gives a falsy value, a TypeError
  when it gives something else that is no function), and \<open>refresh()\<close> over a mapping
  with such an entry throws too: \<open>invoke\<close> catches nothing. A rejection never throws:
  the handlers return; if the invocation is stale the instance is left as it was, and
  if it is the current one for a property not named \<open>rejected\<close> the rejection value is
  stored under the property in the \<open>rejected\<close> object of the state.
\<close>

theorem unresolvable_path_throws_and_rejection_is_data:
  "(\<not> is_method cfg e s \<longrightarrow>
      issue cfg e prop (JStr s) args key (w, g) =
        Inl (if truthy (dlv e (get (ctx e) (contextNamespace cfg)) s) then TypeError
             else NotFound (contextNamespace cfg) s)
      \<and> ((prop, d) \<in> set (mapping_of cfg (props w))
           \<and> fst (descriptor (is_function cfg) (props w) d) = JStr s
         \<longrightarrow> isl (refresh cfg e (w, g))))
   \<and> (\<exists>w'. settle p prop key ident (Reject err) (w, g) = Inr (w', g)
         \<and> (map_of (tracking w) prop \<noteq> Some ident \<longrightarrow> w' = w)
         \<and> (map_of (tracking w) prop = Some ident \<and> prop \<noteq> ''rejected''
              \<longrightarrow> member (getp (state w') ''rejected'') prop = err))"
proof -
  have a: "issue cfg e prop (JStr s) args key (w, g) =
        Inl (if truthy (dlv e (get (ctx e) (contextNamespace cfg)) s) then TypeError
             else NotFound (contextNamespace cfg) s)" if "\<not> is_method cfg e s"
    using issue_unresolvable [OF that] .
  have b: "isl (refresh cfg e (w, g))"
    if "\<not> is_method cfg e s" "(prop, d) \<in> set (mapping_of cfg (props w))"
       "fst (descriptor (is_function cfg) (props w) d) = JStr s"
  proof -
    have "isl (invoke_loop cfg e (is_function cfg) (props w) False True
                 (mapping_of cfg (props w)) [] (w, g))"
      using invoke_loop_throws [OF that(2) that(3) that(1)] .
    then show ?thesis
      by (auto simp: refresh_def invoke_def isl_def)
  qed
  have c: "\<exists>w'. settle p prop key ident (Reject err) (w, g) = Inr (w', g)
         \<and> (map_of (tracking w) prop \<noteq> Some ident \<longrightarrow> w' = w)
         \<and> (map_of (tracking w) prop = Some ident \<and> prop \<noteq> ''rejected''
              \<longrightarrow> member (getp (state w') ''rejected'') prop = err)"
  proof (cases "map_of (tracking w) prop = Some ident")
    case False
    then show ?thesis using settle_reject_stale by simp
  next
    case True
    show ?thesis
    proof (cases "prop = ''rejected''")
      case False
      then show ?thesis using settle_reject_current [OF True False] True by blast
    next
      case r: True
      have "\<exists>w'. settle p prop key ident (Reject err) (w, g) = Inr (w', g)"
        using True by (auto simp: settle_def on_reject_def on_settled_def Let_def)
      then show ?thesis using True r by auto
    qed
  qed
  show ?thesis using a b c by blast
qed


theorem unresolvable_path_throws_and_rejection_is_data_witness:
  "\<not> is_method bar_cfg missing_env ''bar''
   \<and> (''bar'', JStr ''bar'') \<in> set (mapping_of bar_cfg (props (constructor bar_cfg missing_env [])))
   \<and> fst (descriptor (is_function bar_cfg) (props (constructor bar_cfg missing_env [])) (JStr ''bar''))
        = JStr ''bar''
   \<and> issue bar_cfg missing_env ''bar'' (JStr ''bar'') [] bar_key
        (constructor bar_cfg missing_env [], world0) = Inl (NotFound (Some ''foo'') ''bar'')
   \<and> isl (refresh bar_cfg missing_env (constructor bar_cfg missing_env [], world0))
   \<and> map_of (tracking (fst bar_mounted)) ''bar'' = Some 1
   \<and> ''bar'' \<noteq> ''rejected''
   \<and> (\<exists>w'. settle 0 ''bar'' bar_key 1 (Reject (JStr ''BAR'')) bar_mounted = Inr (w', snd bar_mounted)
         \<and> member (getp (state w') ''rejected'') ''bar'' = JStr ''BAR'')
   \<and> map_of (tracking (fst bar_refreshed)) ''bar'' \<noteq> Some 1
   \<and> settle 0 ''bar'' bar_key 1 (Reject (JStr ''BAR'')) bar_refreshed = Inr bar_refreshed"
proof -
  have h1: "\<not> is_method bar_cfg missing_env ''bar''"
    by code_simp
  have h2: "(''bar'', JStr ''bar'') \<in> set (mapping_of bar_cfg (props (constructor bar_cfg missing_env [])))"
    by code_simp
  have h3: "fst (descriptor (is_function bar_cfg) (props (constructor bar_cfg missing_env [])) (JStr ''bar''))
        = JStr ''bar''"
    by code_simp
  have h4: "\<not> truthy (dlv missing_env (get (ctx missing_env) (contextNamespace bar_cfg)) ''bar'')"
    by code_simp
  have h5: "contextNamespace bar_cfg = Some ''foo''"
    by (simp add: bar_cfg_def)
  have h6: "map_of (tracking (fst bar_mounted)) ''bar'' = Some 1"
    by code_simp
  have h7: "map_of (tracking (fst bar_refreshed)) ''bar'' \<noteq> Some 1"
    by code_simp
  have a: "issue bar_cfg missing_env ''bar'' (JStr ''bar'') [] bar_key
        (constructor bar_cfg missing_env [], world0) = Inl (NotFound (Some ''foo'') ''bar'')
      \<and> isl (refresh bar_cfg missing_env (constructor bar_cfg missing_env [], world0))"
    using unresolvable_path_throws_and_rejection_is_data
      [of bar_cfg missing_env "''bar''" "''bar''" "[]" bar_key
          "constructor bar_cfg missing_env []" world0 "JStr ''bar''"]
      h1 h2 h3 h4 h5
    by simp
  have b: "\<exists>w'. settle 0 ''bar'' bar_key 1 (Reject (JStr ''BAR'')) bar_mounted = Inr (w', snd bar_mounted)
         \<and> member (getp (state w') ''rejected'') ''bar'' = JStr ''BAR''"
    using unresolvable_path_throws_and_rejection_is_data
      [of bar_cfg bar_env "''bar''" "''bar''" "[]" bar_key
          "fst bar_mounted" "snd bar_mounted" "JStr ''bar''" 0 1 "JStr ''BAR''"]
      h6
    by auto
  have c: "settle 0 ''bar'' bar_key 1 (Reject (JStr ''BAR'')) bar_refreshed = Inr bar_refreshed"
    using unresolvable_path_throws_and_rejection_is_data
      [of bar_cfg bar_env "''bar''" "''bar''" "[]" bar_key
          "fst bar_refreshed" "snd bar_refreshed" "JStr ''bar''" 0 1 "JStr ''BAR''"]
      h7
    by auto
  show ?thesis using h1 h2 h3 h6 h7 a b c by simp
qed

section \<open>Shorthand argument binding\<close>

lemma subst_arg_string:
  "subst_arg ps (JStr k) = (if has_key ps k then getp ps k else JStr k)"
  by (simp add: subst_arg_def)

lemma subst_arg_other: "(\<And>k. v \<noteq> JStr k) \<Longrightarrow> subst_arg ps v = v"
  by (cases v) (auto simp: subst_arg_def)

lemma entry_key_static:
  "mapToProps cfg = Static m \<Longrightarrow>
   entry_key cfg ps d =
     cache_key (contextNamespace cfg) (fst (split_descriptor d))
       (map (subst_arg ps) (snd (split_descriptor d)))"
  by (simp add: entry_key_def descriptor_def is_function_def split: prod.splits)

lemma entry_key_dynamic:
  "mapToProps cfg = Dynamic f \<Longrightarrow>
   entry_key cfg ps d =
     cache_key (contextNamespace cfg) (fst (split_descriptor d)) (snd (split_descriptor d))"
  by (simp add: entry_key_def descriptor_def is_function_def split: prod.splits)

lemma entry_call_static:
  "mapToProps cfg = Static m \<Longrightarrow>
   entry_call cfg ps pd =
     (fst pd, call_of (fst (split_descriptor (snd pd)))
                (map (subst_arg ps) (snd (split_descriptor (snd pd)))))"
  by (simp add: entry_call_def descriptor_def is_function_def split: prod.splits)

lemma entry_call_dynamic:
  "mapToProps cfg = Dynamic f \<Longrightarrow>
   entry_call cfg ps pd =
     (fst pd, call_of (fst (split_descriptor (snd pd))) (snd (split_descriptor (snd pd))))"
  by (simp add: entry_call_def descriptor_def is_function_def split: prod.splits)

text \<open>
  C9. Under a static mapping, both the keys that \<open>invoke\<close> computes and the arguments it
  calls the model methods with are those of the descriptors after every argument went
  through \<open>subst_arg\<close>, which replaces a string that is a key of the properties by the
  property's value and leaves every other argument alone. Under a mapping that is a
  function of the properties, keys and calls use the arguments of the descriptors as
  they are.
\<close>

theorem static_mapping_binds_arguments_dynamic_does_not:
  "(mapToProps cfg = Static m \<longrightarrow>
      (\<exists>s'. invoke cfg e ps True r (w, g) =
         Inr (map (\<lambda>pd. cache_key (contextNamespace cfg) (fst (split_descriptor (snd pd)))
                          (map (subst_arg ps) (snd (split_descriptor (snd pd))))) m, s'))
      \<and> (resolvable cfg e ps \<longrightarrow>
           (\<exists>w' g'. invoke cfg e ps False True (w, g) =
              Inr (map (\<lambda>pd. cache_key (contextNamespace cfg) (fst (split_descriptor (snd pd)))
                               (map (subst_arg ps) (snd (split_descriptor (snd pd))))) m, w', g')
            \<and> calls g' = calls g @
                  map (\<lambda>pd. (fst pd, call_of (fst (split_descriptor (snd pd)))
                                       (map (subst_arg ps) (snd (split_descriptor (snd pd)))))) m)))
   \<and> (mapToProps cfg = Dynamic f \<longrightarrow>
      (\<exists>s'. invoke cfg e ps True r (w, g) =
         Inr (map (\<lambda>pd. cache_key (contextNamespace cfg) (fst (split_descriptor (snd pd)))
                          (snd (split_descriptor (snd pd)))) (f ps), s'))
      \<and> (resolvable cfg e ps \<longrightarrow>
           (\<exists>w' g'. invoke cfg e ps False True (w, g) =
              Inr (map (\<lambda>pd. cache_key (contextNamespace cfg) (fst (split_descriptor (snd pd)))
                               (snd (split_descriptor (snd pd)))) (f ps), w', g')
            \<and> calls g' = calls g @
                  map (\<lambda>pd. (fst pd, call_of (fst (split_descriptor (snd pd)))
                                       (snd (split_descriptor (snd pd))))) (f ps))))
   \<and> subst_arg ps (JStr k) = (if has_key ps k then getp ps k else JStr k)
   \<and> ((\<forall>k. v \<noteq> JStr k) \<longrightarrow> subst_arg ps v = v)"
proof -
  have ks: "computed_keys cfg ps =
      map (\<lambda>pd. cache_key (contextNamespace cfg) (fst (split_descriptor (snd pd)))
                          (map (subst_arg ps) (snd (split_descriptor (snd pd))))) m"
    if "mapToProps cfg = Static m"
    using that by (auto simp: computed_keys_def mapping_of_def entry_key_static [OF that])
  have kd: "computed_keys cfg ps =
      map (\<lambda>pd. cache_key (contextNamespace cfg) (fst (split_descriptor (snd pd)))
                          (snd (split_descriptor (snd pd)))) (f ps)"
    if "mapToProps cfg = Dynamic f"
    using that by (auto simp: computed_keys_def mapping_of_def entry_key_dynamic [OF that])
  have cs: "map (entry_call cfg ps) (mapping_of cfg ps) =
      map (\<lambda>pd. (fst pd, call_of (fst (split_descriptor (snd pd)))
                                       (map (subst_arg ps) (snd (split_descriptor (snd pd)))))) m"
    if "mapToProps cfg = Static m"
    using that by (auto simp: mapping_of_def entry_call_static [OF that])
  have cd: "map (entry_call cfg ps) (mapping_of cfg ps) =
      map (\<lambda>pd. (fst pd, call_of (fst (split_descriptor (snd pd)))
                                       (snd (split_descriptor (snd pd))))) (f ps)"
    if "mapToProps cfg = Dynamic f"
    using that by (auto simp: mapping_of_def entry_call_dynamic [OF that])
  have ko: "\<exists>s'. invoke cfg e ps True r (w, g) = Inr (computed_keys cfg ps, s')"
    by (simp add: invoke_keysOnly)
  have rf: "\<exists>w' g'. invoke cfg e ps False True (w, g) = Inr (computed_keys cfg ps, w', g')
           \<and> calls g' = calls g @ map (entry_call cfg ps) (mapping_of cfg ps)"
    if "resolvable cfg e ps"
    using invoke_refresh [OF that, of w g] by blast
  have p1: "\<exists>s'. invoke cfg e ps True r (w, g) =
         Inr (map (\<lambda>pd. cache_key (contextNamespace cfg) (fst (split_descriptor (snd pd)))
                          (map (subst_arg ps) (snd (split_descriptor (snd pd))))) m, s')"
    if "mapToProps cfg = Static m"
    using ko ks [OF that] by simp
  have p2: "\<exists>w' g'. invoke cfg e ps False True (w, g) =
              Inr (map (\<lambda>pd. cache_key (contextNamespace cfg) (fst (split_descriptor (snd pd)))
                               (map (subst_arg ps) (snd (split_descriptor (snd pd))))) m, w', g')
            \<and> calls g' = calls g @
                  map (\<lambda>pd. (fst pd, call_of (fst (split_descriptor (snd pd)))
                                       (map (subst_arg ps) (snd (split_descriptor (snd pd)))))) m"
    if "mapToProps cfg = Static m" "resolvable cfg e ps"
    using rf [OF that(2)] ks [OF that(1)] cs [OF that(1)] by simp
  have p3: "\<exists>s'. invoke cfg e ps True r (w, g) =
         Inr (map (\<lambda>pd. cache_key (contextNamespace cfg) (fst (split_descriptor (snd pd)))
                          (snd (split_descriptor (snd pd)))) (f ps), s')"
    if "mapToProps cfg = Dynamic f"
    using ko kd [OF that] by simp
  have p4: "\<exists>w' g'. invoke cfg e ps False True (w, g) =
              Inr (map (\<lambda>pd. cache_key (contextNamespace cfg) (fst (split_descriptor (snd pd)))
                               (snd (split_descriptor (snd pd)))) (f ps), w', g')
            \<and> calls g' = calls g @
                  map (\<lambda>pd. (fst pd, call_of (fst (split_descriptor (snd pd)))
                                       (snd (split_descriptor (snd pd))))) (f ps)"
    if "mapToProps cfg = Dynamic f" "resolvable cfg e ps"
    using rf [OF that(2)] kd [OF that(1)] cd [OF that(1)] by simp
  have p5: "subst_arg ps v = v" if "\<forall>k. v \<noteq> JStr k"
    using subst_arg_other [of v ps] that by blast
  show ?thesis
    using p1 p2 p3 p4 p5 subst_arg_string [of ps k] by blast
qed


theorem static_mapping_binds_arguments_dynamic_does_not_witness:
  "mapToProps story_cfg = Static [(''story'', JArr (Given 2) [JStr ''getStory'', JStr ''id'', JStr ''lang''])]
   \<and> resolvable story_cfg story_env [(''id'', JNum 7)]
   \<and> (\<exists>w' g'. invoke story_cfg story_env [(''id'', JNum 7)] False True
                  (constructor story_cfg story_env [(''id'', JNum 7)], world0) =
               Inr ([cache_key (Some ''news'') (JStr ''getStory'') [JNum 7, JStr ''lang'']], w', g')
          \<and> calls g' = [(''story'', Method ''getStory'' [JNum 7, JStr ''lang''])])
   \<and> mapToProps item_cfg = Dynamic (\<lambda>ps. [(''item'', JArr (Given 2) [JStr ''getItem'', getp ps ''id''])])
   \<and> resolvable item_cfg item_env [(''id'', JStr ''lang''), (''lang'', JStr ''en'')]
   \<and> (\<exists>w' g'. invoke item_cfg item_env [(''id'', JStr ''lang''), (''lang'', JStr ''en'')] False True
                  (constructor item_cfg item_env [(''id'', JStr ''lang''), (''lang'', JStr ''en'')], world0) =
               Inr ([cache_key (Some ''foo'') (JStr ''getItem'') [JStr ''lang'']], w', g')
          \<and> calls g' = [(''item'', Method ''getItem'' [JStr ''lang''])])
   \<and> (\<forall>k. JNum 7 \<noteq> JStr k) \<and> subst_arg [(''id'', JNum 7)] (JNum 7) = JNum 7"
proof -
  have s1: "mapToProps story_cfg = Static [(''story'', JArr (Given 2) [JStr ''getStory'', JStr ''id'', JStr ''lang''])]"
    by (simp add: story_cfg_def)
  have s2: "resolvable story_cfg story_env [(''id'', JNum 7)]"
    by code_simp
  have s3: "contextNamespace story_cfg = Some ''news''"
    by (simp add: story_cfg_def)
  have d1: "mapToProps item_cfg = Dynamic (\<lambda>ps. [(''item'', JArr (Given 2) [JStr ''getItem'', getp ps ''id''])])"
    by (simp add: item_cfg_def)
  have d2: "resolvable item_cfg item_env [(''id'', JStr ''lang''), (''lang'', JStr ''en'')]"
    by code_simp
  have d3: "contextNamespace item_cfg = Some ''foo''"
    by (simp add: item_cfg_def)
  have a: "\<exists>w' g'. invoke story_cfg story_env [(''id'', JNum 7)] False True
                  (constructor story_cfg story_env [(''id'', JNum 7)], world0) =
               Inr ([cache_key (Some ''news'') (JStr ''getStory'') [JNum 7, JStr ''lang'']], w', g')
          \<and> calls g' = [(''story'', Method ''getStory'' [JNum 7, JStr ''lang''])]"
    using static_mapping_binds_arguments_dynamic_does_not
      [of story_cfg "[(''story'', JArr (Given 2) [JStr ''getStory'', JStr ''id'', JStr ''lang''])]"
          story_env "[(''id'', JNum 7)]" False
          "constructor story_cfg story_env [(''id'', JNum 7)]" world0]
      s1 s2 s3
    by (simp add: split_descriptor_def subst_arg_def has_key_def getp_def call_of_def world0_def)
  have b: "\<exists>w' g'. invoke item_cfg item_env [(''id'', JStr ''lang''), (''lang'', JStr ''en'')] False True
                  (constructor item_cfg item_env [(''id'', JStr ''lang''), (''lang'', JStr ''en'')], world0) =
               Inr ([cache_key (Some ''foo'') (JStr ''getItem'') [JStr ''lang'']], w', g')
          \<and> calls g' = [(''item'', Method ''getItem'' [JStr ''lang''])]"
    using static_mapping_binds_arguments_dynamic_does_not
      [of item_cfg _ item_env "[(''id'', JStr ''lang''), (''lang'', JStr ''en'')]" False
          "constructor item_cfg item_env [(''id'', JStr ''lang''), (''lang'', JStr ''en'')]" world0
          "\<lambda>ps. [(''item'', JArr (Given 2) [JStr ''getItem'', getp ps ''id''])]"]
      d1 d2 d3
    by (simp add: split_descriptor_def getp_def call_of_def world0_def)
  have c: "subst_arg [(''id'', JNum 7)] (JNum 7) = JNum 7"
    using static_mapping_binds_arguments_dynamic_does_not
      [of story_cfg _ story_env "[(''id'', JNum 7)]" False
          "constructor story_cfg story_env [(''id'', JNum 7)]" world0 _ _ "JNum 7"]
    by simp
  show ?thesis using s1 s2 d1 d2 a b c by simp
qed


section \<open>The cache key\<close>





















lemma quote_hd: "quote s = CHR 0x22 # concat (map esc_char s) @ [CHR 0x22]"
  by (simp add: quote_def)























end
